theory Spec2Isabelle
  imports Main "HOL-Library.Sublist"
begin

section \<open>Values handled by the spider\<close>

text \<open>
  A Python \<open>str\<close> is a sequence of Unicode code points, so it is modelled as a list of
  code points (the integers \<open>ord\<close> gives). ASCII literals of the source are written
  \<open>u ''...''\<close>; the Chinese literals are given by their code points.
\<close>

type_synonym ustr = "int list"

definition u :: "string \<Rightarrow> ustr" where
  "u s = map of_char s"

text \<open>
  What \<open>response.json()\<close> can return: \<open>None\<close>, a bool, an int, a float, a str, a list or
  a dict. A float is kept as mantissa and exponent (\<open>m * 2 ^ e\<close>); only whether it is
  zero matters here. A dict is an association list in insertion order; the first binding
  of a key is the live one.
\<close>

datatype json =
    JNull
  | JBool bool
  | JInt int
  | JFloat int int
  | JStr ustr
  | JList "json list"
  | JDict "(ustr \<times> json) list"

datatype pyerr = AttributeError | TypeError

text \<open>Python truthiness (\<open>if x\<close>).\<close>

fun truthy :: "json \<Rightarrow> bool" where
  "truthy JNull = False"
| "truthy (JBool b) = b"
| "truthy (JInt n) = (n \<noteq> 0)"
| "truthy (JFloat m e) = (m \<noteq> 0)"
| "truthy (JStr s) = (s \<noteq> [])"
| "truthy (JList xs) = (xs \<noteq> [])"
| "truthy (JDict d) = (d \<noteq> [])"

text \<open>\<open>x == 0\<close>: an int, a float or a bool (\<open>False == 0\<close>) can be equal to 0.\<close>

fun py_eq_zero :: "json \<Rightarrow> bool" where
  "py_eq_zero (JInt n) = (n = 0)"
| "py_eq_zero (JFloat m e) = (m = 0)"
| "py_eq_zero (JBool b) = (\<not> b)"
| "py_eq_zero _ = False"

text \<open>\<open>x.get(k, d)\<close>: only a dict has \<open>get\<close>; anything else raises AttributeError.\<close>

fun get :: "json \<Rightarrow> ustr \<Rightarrow> json \<Rightarrow> pyerr + json" where
  "get (JDict d) k dflt = Inr (case map_of d k of None \<Rightarrow> dflt | Some v \<Rightarrow> v)"
| "get _ k dflt = Inl AttributeError"

text \<open>The keys of a dict in insertion order.\<close>

definition dict_keys :: "(ustr \<times> json) list \<Rightarrow> ustr list" where
  "dict_keys d = rev (remdups (rev (map fst d)))"

text \<open>\<open>len(x)\<close>.\<close>

fun py_len :: "json \<Rightarrow> pyerr + int" where
  "py_len (JStr s) = Inr (int (length s))"
| "py_len (JList xs) = Inr (int (length xs))"
| "py_len (JDict d) = Inr (int (length (dict_keys d)))"
| "py_len _ = Inl TypeError"

text \<open>Iterating over a value (\<open>for x in v\<close>): a str yields its characters, a dict its keys.\<close>

fun py_iter :: "json \<Rightarrow> pyerr + json list" where
  "py_iter (JStr s) = Inr (map (\<lambda>c. JStr [c]) s)"
| "py_iter (JList xs) = Inr xs"
| "py_iter (JDict d) = Inr (map JStr (dict_keys d))"
| "py_iter _ = Inl TypeError"

text \<open>\<open>",".join(v)\<close>: every element of the iterable must be a str.\<close>

fun strs_of :: "json list \<Rightarrow> pyerr + ustr list" where
  "strs_of [] = Inr []"
| "strs_of (JStr s # xs) = (case strs_of xs of Inl e \<Rightarrow> Inl e | Inr ss \<Rightarrow> Inr (s # ss))"
| "strs_of (_ # xs) = Inl TypeError"

fun join :: "ustr \<Rightarrow> ustr list \<Rightarrow> ustr" where
  "join sep [] = []"
| "join sep [s] = s"
| "join sep (s # ss) = s @ sep @ join sep ss"

definition comma_join :: "json \<Rightarrow> pyerr + json" where
  "comma_join v =
     (case py_iter v of Inl e \<Rightarrow> Inl e
      | Inr xs \<Rightarrow> (case strs_of xs of Inl e \<Rightarrow> Inl e
                  | Inr ss \<Rightarrow> Inr (JStr (join (u '','') ss))))"

text \<open>\<open>v.split(' ')[0]\<close>: only a str has \<open>split\<close>; the first piece is what precedes the
  first space.\<close>

fun split_first :: "json \<Rightarrow> pyerr + json" where
  "split_first (JStr s) = Inr (JStr (takeWhile (\<lambda>c. c \<noteq> 32) s))"
| "split_first _ = Inl AttributeError"

text \<open>\<open>k in v\<close>: key membership for a dict, element membership for a list, substring for
  a str, TypeError for the rest.\<close>

fun py_contains :: "json \<Rightarrow> ustr \<Rightarrow> pyerr + bool" where
  "py_contains (JDict d) k = Inr (k \<in> set (map fst d))"
| "py_contains (JList xs) k = Inr (JStr k \<in> set xs)"
| "py_contains (JStr s) k = Inr (sublist k s)"
| "py_contains _ k = Inl TypeError"

section \<open>Parsing one review item\<close>

text \<open>A parsed comment is a Python dict: keys in insertion order.\<close>

type_synonym comment = "(ustr \<times> json) list"

text \<open>\<open>d[k] = v\<close>: replace the value in place if the key exists, append otherwise.\<close>

fun dict_set :: "comment \<Rightarrow> ustr \<Rightarrow> json \<Rightarrow> comment" where
  "dict_set [] k v = [(k, v)]"
| "dict_set ((k', v') # d) k v = (if k' = k then (k, v) # d else (k', v') # dict_set d k v)"

definition anonymous :: ustr where "anonymous = [21311, 21517]"

definition col_user :: ustr where "col_user = [29992, 25143, 21517]"
definition col_time :: ustr where "col_time = [35780, 35770, 26102, 38388]"
definition col_content :: ustr where "col_content = [35780, 35770, 20869, 23481]"
definition col_ip :: ustr where "col_ip = [73, 80, 23646, 22320]"
definition col_score :: ustr where "col_score = [35780, 20998]"
definition col_tags :: ustr where "col_tags = [25512, 33616, 26631, 31614]"
definition col_useful :: ustr where "col_useful = [28857, 36190, 25968]"
definition col_id :: ustr where "col_id = [35780, 35770, 73, 68]"
definition col_images :: ustr where "col_images = [22270, 29255, 25968, 37327]"
definition col_reply :: ustr where "col_reply = [22238, 22797, 25968]"
definition col_identity :: ustr where "col_identity = [29992, 25143, 36523, 20221]"

text \<open>Sequencing of statements that may raise.\<close>

definition thn :: "pyerr + 'a \<Rightarrow> ('a \<Rightarrow> pyerr + 'b) \<Rightarrow> pyerr + 'b" where
  "thn m f = (case m of Inl e \<Rightarrow> Inl e | Inr x \<Rightarrow> f x)"

text \<open>\<open>try: comment[k] = e  except Exception: comment[k] = d\<close>.\<close>

definition try_set :: "comment \<Rightarrow> ustr \<Rightarrow> pyerr + json \<Rightarrow> json \<Rightarrow> comment" where
  "try_set c k e dflt = (case e of Inl _ \<Rightarrow> dict_set c k dflt | Inr v \<Rightarrow> dict_set c k v)"

text \<open>The three guarded extractions of \<open>_parse_comment\<close>.\<close>

definition user_nick :: "json \<Rightarrow> pyerr + json" where
  "user_nick item =
     thn (get item (u ''userInfo'') (JDict []))
       (\<lambda>user_info. if truthy user_info then get user_info (u ''userNick'') (JStr anonymous)
                     else Inr (JStr anonymous))"

definition publish_date :: "json \<Rightarrow> pyerr + json" where
  "publish_date item =
     thn (get item (u ''publishTypeTag'') (JStr []))
       (\<lambda>publish_tag. if truthy publish_tag then split_first publish_tag else Inr (JStr []))"

definition user_identity :: "json \<Rightarrow> pyerr + json" where
  "user_identity item =
     thn (get item (u ''userInfo'') (JDict []))
       (\<lambda>user_info. if truthy user_info then get user_info (u ''identitiesName'') (JStr [])
                     else Inr (JStr []))"

text \<open>The unguarded extractions: an exception here leaves through the outer \<open>try\<close>.\<close>

definition recommend_tags :: "json \<Rightarrow> pyerr + json" where
  "recommend_tags item =
     thn (get item (u ''recommendItems'') (JList []))
       (\<lambda>recommend_items. if truthy recommend_items then comma_join recommend_items
                           else Inr (JStr []))"

definition image_count :: "json \<Rightarrow> pyerr + json" where
  "image_count item =
     thn (get item (u ''images'') JNull)
       (\<lambda>images. if truthy images
                  then thn (get item (u ''images'') (JList []))
                         (\<lambda>imgs. thn (py_len imgs) (\<lambda>n. Inr (JInt n)))
                  else Inr (JInt 0))"

text \<open>\<open>_parse_comment\<close>: \<open>None\<close> is the source's \<open>return None\<close> of the outer handler.\<close>

definition parse_comment :: "json \<Rightarrow> comment option" where
  "parse_comment item =
     (let comment = [];
          comment = try_set comment col_user (user_nick item) (JStr anonymous);
          comment = try_set comment col_time (publish_date item) (JStr [])
      in case
        thn (get item (u ''content'') (JStr [])) (\<lambda>v.
        let comment = dict_set comment col_content v in
        thn (get item (u ''ipLocatedName'') (JStr [])) (\<lambda>v.
        let comment = dict_set comment col_ip v in
        thn (get item (u ''score'') (JStr [])) (\<lambda>v.
        let comment = dict_set comment col_score v in
        thn (recommend_tags item) (\<lambda>v.
        let comment = dict_set comment col_tags v in
        thn (get item (u ''usefulCount'') (JInt 0)) (\<lambda>v.
        let comment = dict_set comment col_useful v in
        thn (get item (u ''commentId'') (JStr [])) (\<lambda>v.
        let comment = dict_set comment col_id v in
        thn (image_count item) (\<lambda>v.
        let comment = dict_set comment col_images v in
        thn (get item (u ''replyCount'') (JInt 0)) (\<lambda>v.
        let comment = dict_set comment col_reply v in
        Inr (try_set comment col_identity (user_identity item) (JStr []))))))))))
      of Inl _ \<Rightarrow> None | Inr comment \<Rightarrow> Some comment)"

section \<open>The retrieval loop\<close>

text \<open>
  An exception raised inside the \<open>try\<close> of \<open>fetch_comments\<close> is described by the classes
  named in the handler chain that it is an instance of (every exception is an instance
  of \<open>Exception\<close>). Which classes an exception of the HTTP library belongs to is decided
  by that library; the chain only asks \<open>isinstance\<close>, in the order of the handlers.
\<close>

datatype exn_class = Timeout | ConnectionError | RequestException | JSONDecodeError

type_synonym exn = "exn_class set"

definition isinstance :: "exn \<Rightarrow> exn_class \<Rightarrow> bool" where
  "isinstance e c = (c \<in> e)"

text \<open>
  What one call of \<open>session.post\<close> leads to: the call raises, or it returns a response
  with a status code whose \<open>json()\<close> either raises or yields a value.
\<close>

datatype body = JsonRaises exn | JsonValue json

datatype outcome = PostRaises exn | Response int body

text \<open>Observable actions, in order: requests (with the page index asked for) and sleeps.\<close>

datatype event = Req int | Sleep nat | SleepDelay

record state =
  page :: int
  total_count :: int
  consecutive_empty :: int
  comments_data :: "comment list"
  total_count_from_api :: json
  trace :: "event list"

record config =
  max_pages :: "int option"
  poi_id_int :: "int option"

text \<open>
  \<open>poi_id_int\<close> is the result of \<open>int(self.poi_id)\<close> in \<open>_build_request_data\<close>
  (\<open>None\<close> when it raises ValueError). The random delay between pages is not given a
  value; the delay range is taken to be one that \<open>time.sleep\<close> accepts.
\<close>

definition init_state :: state where
  "init_state = \<lparr>page = 1, total_count = 0, consecutive_empty = 0, comments_data = [],
                 total_count_from_api = JInt 0, trace = []\<rparr>"

definition max_consecutive_empty :: int where
  "max_consecutive_empty = 3"

datatype reason =
    MaxPages
  | HttpCeiling
  | MalformedEnvelope
  | NoReviews
  | Completed
  | RequestCeiling
  | JsonError
  | UnknownError

datatype step = Continue state | Stop reason state

definition emit :: "event \<Rightarrow> state \<Rightarrow> state" where
  "emit ev s = s\<lparr>trace := trace s @ [ev]\<rparr>"

text \<open>\<open>if max_pages and page > max_pages\<close>.\<close>

definition limit_reached :: "int option \<Rightarrow> int \<Rightarrow> bool" where
  "limit_reached mp p = (case mp of None \<Rightarrow> False | Some m \<Rightarrow> m \<noteq> 0 \<and> p > m)"

text \<open>The \<open>except\<close> chain, first matching handler.\<close>

definition handle_exn :: "state \<Rightarrow> exn \<Rightarrow> step" where
  "handle_exn s e =
     (if isinstance e Timeout then Continue (emit (Sleep 5) s)
      else if isinstance e ConnectionError then Continue (emit (Sleep 10) s)
      else if isinstance e RequestException then
        (let s = s\<lparr>consecutive_empty := consecutive_empty s + 1\<rparr>
         in if consecutive_empty s \<ge> max_consecutive_empty then Stop RequestCeiling s
            else Continue (emit (Sleep 5) s))
      else if isinstance e JSONDecodeError then Stop JsonError s
      else Stop UnknownError s)"

text \<open>The body of the \<open>for item in items\<close> loop.\<close>

definition add_item :: "state \<Rightarrow> json \<Rightarrow> state" where
  "add_item s item =
     (case parse_comment item of
        None \<Rightarrow> s
      | Some comment \<Rightarrow>
          if comment \<noteq> []
          then s\<lparr>comments_data := comments_data s @ [comment], total_count := total_count s + 1\<rparr>
          else s)"

text \<open>
  The part of the \<open>try\<close> body after a response with status 200 has been decoded. An
  exception raised by a builtin here (AttributeError, TypeError) is an instance of none
  of the four classes and reaches \<open>except Exception\<close>.
\<close>

definition process_result :: "state \<Rightarrow> json \<Rightarrow> step" where
  "process_result s result =
     (case py_contains result (u ''result'') of
        Inl _ \<Rightarrow> Stop UnknownError s
      | Inr False \<Rightarrow> Stop MalformedEnvelope s
      | Inr True \<Rightarrow>
         (case get result (u ''result'') (JDict []) of
            Inl _ \<Rightarrow> Stop UnknownError s
          | Inr result_data \<Rightarrow>
             (case get result_data (u ''items'') (JList []) of
                Inl _ \<Rightarrow> Stop UnknownError s
              | Inr items \<Rightarrow>
                 (case get result_data (u ''totalCount'') (JInt 0) of
                    Inl _ \<Rightarrow> Stop UnknownError s
                  | Inr api_total \<Rightarrow>
                     (let s = s\<lparr>total_count_from_api := api_total\<rparr>
                      in if page s = 1 \<and> py_eq_zero (total_count_from_api s) then Stop NoReviews s
                         else if \<not> truthy items then Stop Completed s
                         else (case py_iter items of
                                 Inl _ \<Rightarrow> Stop UnknownError s
                               | Inr its \<Rightarrow>
                                  (let s = foldl add_item s its;
                                       s = s\<lparr>consecutive_empty := 0\<rparr>;
                                       s = s\<lparr>page := page s + 1\<rparr>
                                   in Continue (emit SleepDelay s))))))))"

text \<open>One pass through the \<open>try\<close> statement, from the request on.\<close>

definition attempt :: "state \<Rightarrow> outcome \<Rightarrow> step" where
  "attempt s out =
     (let s = emit (Req (page s)) s
      in case out of
           PostRaises e \<Rightarrow> handle_exn s e
         | Response status_code b \<Rightarrow>
            if status_code \<noteq> 200 then
              (let s = s\<lparr>consecutive_empty := consecutive_empty s + 1\<rparr>
               in if consecutive_empty s \<ge> max_consecutive_empty then Stop HttpCeiling s
                  else Continue (emit (Sleep 3) (s\<lparr>page := page s + 1\<rparr>)))
            else (case b of
                    JsonRaises e \<Rightarrow> handle_exn s e
                  | JsonValue result \<Rightarrow> process_result s result))"

text \<open>
  The \<open>while True\<close> loop, driven by the list of outcomes the server side produces, one
  per request. \<open>Pending s\<close>: the loop has passed the page limit check and built the next
  request in state \<open>s\<close>, and the list holds no outcome for it.
\<close>

datatype run = Done reason state | Pending state

fun loop :: "config \<Rightarrow> state \<Rightarrow> outcome list \<Rightarrow> run" where
  "loop cfg s [] =
     (if limit_reached (max_pages cfg) (page s) then Done MaxPages s
      else if poi_id_int cfg = None then Done UnknownError s
      else Pending s)"
| "loop cfg s (out # outs) =
     (if limit_reached (max_pages cfg) (page s) then Done MaxPages s
      else if poi_id_int cfg = None then Done UnknownError s
      else (case attempt s out of
              Continue s' \<Rightarrow> loop cfg s' outs
            | Stop r s' \<Rightarrow> Done r s'))"

definition fetch_comments :: "config \<Rightarrow> outcome list \<Rightarrow> run" where
  "fetch_comments cfg outs = loop cfg init_state outs"

text \<open>The value \<open>fetch_comments\<close> returns: 0 on the no-reviews exit, the count otherwise.\<close>

fun return_value :: "run \<Rightarrow> int option" where
  "return_value (Done NoReviews s) = Some 0"
| "return_value (Done r s) = Some (total_count s)"
| "return_value (Pending s) = None"

fun final_state :: "run \<Rightarrow> state" where
  "final_state (Done r s) = s"
| "final_state (Pending s) = s"

definition requests :: "state \<Rightarrow> int list" where
  "requests s = concat (map (\<lambda>ev. case ev of Req p \<Rightarrow> [p] | _ \<Rightarrow> []) (trace s))"

section \<open>Saving\<close>

text \<open>
  The header \<open>save_to_csv\<close> writes: the columns of the data frame built from the records
  (the keys of the records in order of first appearance), filtered and ordered by
  \<open>columns_order\<close>. \<open>None\<close>: nothing is written because there are no records. A failure
  of the file system is outside the model.
\<close>

definition frame_columns :: "comment list \<Rightarrow> ustr list" where
  "frame_columns records = rev (remdups (rev (concat (map dict_keys records))))"

definition columns_order :: "ustr list" where
  "columns_order = [col_user, col_time, col_score, col_content, col_ip, col_tags,
                    col_useful, col_reply, col_images, col_identity, col_id]"

definition save_to_csv :: "comment list \<Rightarrow> ustr list option" where
  "save_to_csv records =
     (if records = [] then None
      else Some (filter (\<lambda>col. col \<in> set (frame_columns records)) columns_order))"

section \<open>Notions used in the statements\<close>

text \<open>The item is a dict, so that \<open>item.get\<close> does not raise.\<close>

definition is_mapping :: "json \<Rightarrow> bool" where
  "is_mapping v = (case v of JDict d \<Rightarrow> True | _ \<Rightarrow> False)"

definition raises :: "pyerr + 'a \<Rightarrow> bool" where
  "raises r = (case r of Inl e \<Rightarrow> True | Inr v \<Rightarrow> False)"

definition or_default :: "pyerr + json \<Rightarrow> json \<Rightarrow> json" where
  "or_default r dflt = (case r of Inl e \<Rightarrow> dflt | Inr v \<Rightarrow> v)"

text \<open>\<open>item.get(k, dflt)\<close> of an item that is a dict.\<close>

definition field :: "json \<Rightarrow> string \<Rightarrow> json \<Rightarrow> json" where
  "field item k dflt = or_default (get item (u k) dflt) dflt"

text \<open>The keys of a parsed comment, in the order \<open>_parse_comment\<close> assigns them.\<close>

definition inserted_columns :: "ustr list" where
  "inserted_columns = [col_user, col_time, col_content, col_ip, col_score, col_tags,
                       col_useful, col_id, col_images, col_reply, col_identity]"

text \<open>How the handler chain classifies an exception.\<close>

definition transient :: "exn \<Rightarrow> bool" where
  "transient e = (isinstance e Timeout \<or> isinstance e ConnectionError)"


definition plain_json_decode_error :: "exn \<Rightarrow> bool" where
  "plain_json_decode_error e =
     (\<not> transient e \<and> \<not> isinstance e RequestException \<and> isinstance e JSONDecodeError)"

text \<open>The exception one attempt ends with, if it ends with one that reaches the chain.\<close>

fun raised :: "outcome \<Rightarrow> exn option" where
  "raised (PostRaises e) = Some e"
| "raised (Response status_code (JsonRaises e)) = (if status_code = 200 then Some e else None)"
| "raised (Response status_code (JsonValue v)) = None"

fun http_failure :: "outcome \<Rightarrow> bool" where
  "http_failure (Response status_code b) = (status_code \<noteq> 200)"
| "http_failure (PostRaises e) = False"


definition uncounted_failure :: "outcome \<Rightarrow> bool" where
  "uncounted_failure out = (case raised out of None \<Rightarrow> False | Some e \<Rightarrow> transient e)"

text \<open>
  What the code accepts as a page: status exactly 200 (line 193 tests \<open>!= 200\<close>), a body
  that decodes to a dict with the key \<open>result\<close> bound to a dict. \<open>result_data_of\<close> gives
  that inner dict. A response with any other status, 201 or 204 included, is an HTTP
  failure to the code.
\<close>

fun result_data_of :: "outcome \<Rightarrow> (ustr \<times> json) list option" where
  "result_data_of (Response status_code (JsonValue (JDict d))) =
     (if status_code = 200
      then (case map_of d (u ''result'') of Some (JDict rd) \<Rightarrow> Some rd | _ \<Rightarrow> None)
      else None)"
| "result_data_of _ = None"

definition items_of :: "(ustr \<times> json) list \<Rightarrow> json" where
  "items_of rd = (case map_of rd (u ''items'') of None \<Rightarrow> JList [] | Some v \<Rightarrow> v)"

definition total_of :: "(ustr \<times> json) list \<Rightarrow> json" where
  "total_of rd = (case map_of rd (u ''totalCount'') of None \<Rightarrow> JInt 0 | Some v \<Rightarrow> v)"

text \<open>A well-formed page body with the given items and total.\<close>

definition page_body :: "json \<Rightarrow> json \<Rightarrow> outcome" where
  "page_body items api_total =
     Response 200 (JsonValue (JDict [(u ''result'',
        JDict [(u ''items'', items), (u ''totalCount'', api_total)])]))"

text \<open>
  The same body under any status code. A status other than 200 never reaches the decoding
  in the code, whatever its body would decode to.
\<close>

definition page_response :: "int \<Rightarrow> json \<Rightarrow> json \<Rightarrow> outcome" where
  "page_response status_code items api_total =
     Response status_code (JsonValue (JDict [(u ''result'',
        JDict [(u ''items'', items), (u ''totalCount'', api_total)])]))"

text \<open>
  Structural success in the words of the specification's glossary: a status from 200 to
  299 and a body that decodes to JSON holding the result envelope. It is wider than the
  test of the code, which is \<open>status_code != 200\<close>: \<open>result_data_of\<close> above is the
  envelope of a response the code accepts, \<open>envelope_of\<close> the envelope under any status.
\<close>

fun envelope_of :: "outcome \<Rightarrow> (ustr \<times> json) list option" where
  "envelope_of (Response status_code (JsonValue (JDict d))) =
     (case map_of d (u ''result'') of Some (JDict rd) \<Rightarrow> Some rd | _ \<Rightarrow> None)"
| "envelope_of _ = None"

fun status_2xx :: "outcome \<Rightarrow> bool" where
  "status_2xx (Response status_code b) = (200 \<le> status_code \<and> status_code \<le> 299)"
| "status_2xx (PostRaises e) = False"

definition spec_structural_success :: "outcome \<Rightarrow> bool" where
  "spec_structural_success out = (status_2xx out \<and> envelope_of out \<noteq> None)"

text \<open>What holds of every state a run from \<open>init_state\<close> goes through.\<close>

definition run_inv :: "state \<Rightarrow> bool" where
  "run_inv s = (1 \<le> page s \<and> 0 \<le> consecutive_empty s
               \<and> (page s = 1 \<longrightarrow> comments_data s = [])
               \<and> (\<forall>c \<in> set (comments_data s). map fst c = inserted_columns))"

text \<open>The records one page contributes: the items that parse, in order.\<close>

definition records_of :: "json list \<Rightarrow> comment list" where
  "records_of its =
     concat (map (\<lambda>item. case parse_comment item of
                            None \<Rightarrow> []
                          | Some c \<Rightarrow> if c \<noteq> [] then [c] else []) its)"

text \<open>A configuration used in the worked examples: no page limit, a numeric identifier.\<close>

definition example_cfg :: config where
  "example_cfg = \<lparr>max_pages = None, poi_id_int = Some 49958175\<rparr>"

text \<open>The state a step ends in.\<close>

definition state_of :: "step \<Rightarrow> state" where
  "state_of st = (case st of Continue s \<Rightarrow> s | Stop r s \<Rightarrow> s)"


section \<open>Properties of the parser\<close>

lemmas col_defs = col_user_def col_time_def col_content_def col_ip_def col_score_def col_tags_def
  col_useful_def col_id_def col_images_def col_reply_def col_identity_def

lemma inserted_columns_distinct: "distinct inserted_columns"
  by (simp add: inserted_columns_def col_defs)

lemma get_mapping: "is_mapping item \<Longrightarrow> get item k dflt = Inr (or_default (get item k dflt) dflt)"
  by (cases item) (simp_all add: is_mapping_def or_default_def)

lemma get_not_mapping: "\<not> is_mapping item \<Longrightarrow> get item k dflt = Inl AttributeError"
  by (cases item) (simp_all add: is_mapping_def)

lemma parse_comment_not_mapping: "\<not> is_mapping item \<Longrightarrow> parse_comment item = None"
  by (simp add: parse_comment_def get_not_mapping thn_def)

lemma parse_comment_mapping:
  assumes "is_mapping item"
  shows "parse_comment item =
     (if raises (recommend_tags item) \<or> raises (image_count item) then None
      else Some
        [(col_user, or_default (user_nick item) (JStr anonymous)),
         (col_time, or_default (publish_date item) (JStr [])),
         (col_content, field item ''content'' (JStr [])),
         (col_ip, field item ''ipLocatedName'' (JStr [])),
         (col_score, field item ''score'' (JStr [])),
         (col_tags, or_default (recommend_tags item) (JStr [])),
         (col_useful, field item ''usefulCount'' (JInt 0)),
         (col_id, field item ''commentId'' (JStr [])),
         (col_images, or_default (image_count item) (JInt 0)),
         (col_reply, field item ''replyCount'' (JInt 0)),
         (col_identity, or_default (user_identity item) (JStr []))])"
proof -
  have g: "\<And>k dflt. get item (u k) dflt = Inr (field item k dflt)"
    using assms by (simp add: field_def get_mapping [symmetric])
  show ?thesis
    unfolding parse_comment_def Let_def g thn_def try_set_def
    by (cases "user_nick item"; cases "publish_date item"; cases "recommend_tags item";
        cases "image_count item"; cases "user_identity item")
       (simp_all add: raises_def or_default_def col_defs)
qed

lemma parse_comment_keys: "parse_comment item = Some c \<Longrightarrow> map fst c = inserted_columns"
  by (cases "is_mapping item")
     (auto simp: parse_comment_mapping parse_comment_not_mapping inserted_columns_def
           split: if_splits)

section \<open>Properties of the loop\<close>

lemma loop_limit: "limit_reached (max_pages cfg) (page s) \<Longrightarrow> loop cfg s outs = Done MaxPages s"
  by (cases outs) simp_all

lemma loop_no_poi:
  "\<not> limit_reached (max_pages cfg) (page s) \<Longrightarrow> poi_id_int cfg = None \<Longrightarrow> loop cfg s outs = Done UnknownError s"
  by (cases outs) simp_all

lemma loop_append:
  "loop cfg s (pre @ rest) =
     (case loop cfg s pre of Pending s' \<Rightarrow> loop cfg s' rest | Done r s' \<Rightarrow> Done r s')"
proof (induction pre arbitrary: s)
  case Nil
  show ?case by (simp add: loop_limit loop_no_poi)
next
  case (Cons out pre)
  show ?case by (simp add: Cons.IH split: step.split)
qed

lemma Pending_ready:
  "loop cfg s0 pre = Pending s \<Longrightarrow>
     \<not> limit_reached (max_pages cfg) (page s) \<and> poi_id_int cfg \<noteq> None"
proof (induction pre arbitrary: s0)
  case Nil
  then show ?case by (auto split: if_splits)
next
  case (Cons out pre)
  then show ?case by (auto split: if_splits step.splits)
qed

lemma loop_next:
  assumes "loop cfg s0 pre = Pending s"
  shows "loop cfg s0 (pre @ out # rest) =
     (case attempt s out of Continue s' \<Rightarrow> loop cfg s' rest | Stop r s' \<Rightarrow> Done r s')"
  using Pending_ready [OF assms] by (auto simp: loop_append assms)


text \<open>The attempt, outcome class by outcome class.\<close>

lemma attempt_http_failure:
  "http_failure out \<Longrightarrow>
   attempt s out =
     (if consecutive_empty s + 1 \<ge> max_consecutive_empty
      then Stop HttpCeiling (s\<lparr>consecutive_empty := consecutive_empty s + 1,
                                trace := trace s @ [Req (page s)]\<rparr>)
      else Continue (s\<lparr>page := page s + 1, consecutive_empty := consecutive_empty s + 1,
                        trace := trace s @ [Req (page s), Sleep 3]\<rparr>))"
  by (cases out) (simp_all add: attempt_def emit_def Let_def)

lemma attempt_raised:
  "raised out = Some e \<Longrightarrow> attempt s out = handle_exn (emit (Req (page s)) s) e"
  by (cases out rule: raised.cases) (simp_all add: attempt_def Let_def split: if_splits)

lemma handle_transient:
  "transient e \<Longrightarrow>
   handle_exn s e = Continue (emit (Sleep (if isinstance e Timeout then 5 else 10)) s)"
  by (auto simp: handle_exn_def transient_def)


lemma handle_plain_json:
  "plain_json_decode_error e \<Longrightarrow> handle_exn s e = Stop JsonError s"
  by (auto simp: handle_exn_def plain_json_decode_error_def transient_def)

lemma result_data_of_SomeD:
  "result_data_of out = Some rd \<Longrightarrow>
   \<exists>d. out = Response 200 (JsonValue (JDict d)) \<and> map_of d (u ''result'') = Some (JDict rd)"
  by (cases out rule: result_data_of.cases) (auto split: if_splits option.splits json.splits)

lemma attempt_success:
  assumes "result_data_of out = Some rd"
  shows "attempt s out =
     (let s1 = s\<lparr>trace := trace s @ [Req (page s)], total_count_from_api := total_of rd\<rparr>
      in if page s = 1 \<and> py_eq_zero (total_of rd) then Stop NoReviews s1
         else if \<not> truthy (items_of rd) then Stop Completed s1
         else (case py_iter (items_of rd) of
                 Inl e \<Rightarrow> Stop UnknownError s1
               | Inr its \<Rightarrow>
                   Continue ((foldl add_item s1 its)\<lparr>consecutive_empty := 0,
                       page := page (foldl add_item s1 its) + 1,
                       trace := trace (foldl add_item s1 its) @ [SleepDelay]\<rparr>)))"
proof -
  from result_data_of_SomeD [OF assms] obtain d where
    out: "out = Response 200 (JsonValue (JDict d))" and d: "map_of d (u ''result'') = Some (JDict rd)"
    by blast
  have dom: "u ''result'' \<in> fst ` set d"
    using d by (metis domI dom_map_of_conv_image_fst)
  show ?thesis
    unfolding out attempt_def process_result_def
    by (simp add: d dom emit_def Let_def items_of_def total_of_def split: sum.split)
qed

lemma add_item_frame [simp]:
  "page (add_item s item) = page s"
  "trace (add_item s item) = trace s"
  "consecutive_empty (add_item s item) = consecutive_empty s"
  "total_count_from_api (add_item s item) = total_count_from_api s"
  by (simp_all add: add_item_def split: option.split)

lemma foldl_add_item_frame [simp]:
  "page (foldl add_item s its) = page s"
  "trace (foldl add_item s its) = trace s"
  "consecutive_empty (foldl add_item s its) = consecutive_empty s"
  "total_count_from_api (foldl add_item s its) = total_count_from_api s"
  by (induction its arbitrary: s) simp_all

lemma foldl_add_item_records:
  "comments_data (foldl add_item s its) = comments_data s @ records_of its
   \<and> total_count (foldl add_item s its) = total_count s + int (length (records_of its))"
  by (induction its arbitrary: s) (simp_all add: records_of_def add_item_def split: option.split)

lemma records_of_keys: "c \<in> set (records_of its) \<Longrightarrow> map fst c = inserted_columns"
  by (auto simp: records_of_def parse_comment_keys split: option.splits if_splits)

lemma attempt_inv:
  assumes "run_inv s" and "attempt s out = Continue s'"
  shows "run_inv s'"
proof (cases "http_failure out")
  case True
  with assms show ?thesis
    by (auto simp: attempt_http_failure run_inv_def split: if_splits)
next
  case nf: False
  show ?thesis
  proof (cases "raised out")
    case (Some e)
    with assms show ?thesis
      by (auto simp: attempt_raised handle_exn_def emit_def run_inv_def Let_def split: if_splits)
  next
    case None
    show ?thesis
    proof (cases "result_data_of out")
      case (Some rd)
      with assms show ?thesis
        by (auto simp: attempt_success run_inv_def Let_def foldl_add_item_records
              dest: records_of_keys split: if_splits sum.splits)
    next
      case nr: None
      from nf None obtain v where out: "out = Response 200 (JsonValue v)"
        by (cases out rule: raised.cases) (auto split: if_splits)
      have "\<And>r. process_result s0 v \<noteq> Continue r" for s0
        using nr unfolding out process_result_def
        by (cases v) (auto simp: Let_def split: sum.splits bool.splits option.splits json.splits if_splits)
      with assms show ?thesis by (simp add: out attempt_def Let_def)
    qed
  qed
qed

lemma init_inv: "run_inv init_state"
  by (simp add: run_inv_def init_state_def)

lemma loop_inv:
  "loop cfg s0 pre = Pending s \<Longrightarrow> run_inv s0 \<Longrightarrow> run_inv s"
proof (induction pre arbitrary: s0)
  case Nil
  then show ?case by (auto split: if_splits)
next
  case (Cons out pre)
  then show ?case by (auto split: if_splits step.splits dest: attempt_inv)
qed

lemma requests_emit [simp]:
  "requests (s\<lparr>trace := trace s @ [Req p]\<rparr>) = requests s @ [p]"
  "requests (s\<lparr>trace := trace s @ [Req p, Sleep n]\<rparr>) = requests s @ [p]"
  "requests (s\<lparr>trace := trace s @ [Sleep n]\<rparr>) = requests s"
  "requests (s\<lparr>trace := trace s @ [SleepDelay]\<rparr>) = requests s"
  by (simp_all add: requests_def)

lemma requests_frame [simp]:
  "requests (s\<lparr>total_count_from_api := t\<rparr>) = requests s"
  "requests (s\<lparr>consecutive_empty := n\<rparr>) = requests s"
  "requests (s\<lparr>page := p\<rparr>) = requests s"
  by (simp_all add: requests_def)

lemma fetch_inv: "fetch_comments cfg pre = Pending s \<Longrightarrow> run_inv s"
  using init_inv loop_inv unfolding fetch_comments_def by blast

lemma fetch_next:
  "fetch_comments cfg pre = Pending s \<Longrightarrow>
   fetch_comments cfg (pre @ out # rest) =
     (case attempt s out of Continue s' \<Rightarrow> loop cfg s' rest | Stop r s' \<Rightarrow> Done r s')"
  unfolding fetch_comments_def by (rule loop_next)

lemma limit_reached_mono: "limit_reached mp p \<Longrightarrow> p \<le> q \<Longrightarrow> limit_reached mp q"
  by (auto simp: limit_reached_def split: option.splits)


lemma attempt_uncounted:
  assumes "uncounted_failure out"
  shows "\<exists>n. attempt s out = Continue (s\<lparr>trace := trace s @ [Req (page s), Sleep n]\<rparr>)"
proof -
  from assms obtain e where e: "raised out = Some e" "transient e"
    by (auto simp: uncounted_failure_def split: option.splits)
  show ?thesis
    by (rule exI [of _ "if isinstance e Timeout then 5 else 10"])
       (simp add: attempt_raised [OF e(1)] handle_transient [OF e(2)] emit_def)
qed

lemma loop_uncounted:
  assumes "\<not> limit_reached (max_pages cfg) (page s)" and "poi_id_int cfg \<noteq> None"
    and "\<forall>out \<in> set ts. uncounted_failure out"
  shows "\<exists>s'. loop cfg s ts = Pending s'
           \<and> page s' = page s \<and> consecutive_empty s' = consecutive_empty s
           \<and> comments_data s' = comments_data s \<and> total_count s' = total_count s
           \<and> total_count_from_api s' = total_count_from_api s
           \<and> requests s' = requests s @ replicate (length ts) (page s)"
  using assms
proof (induction ts arbitrary: s)
  case Nil
  then show ?case by simp
next
  case (Cons out ts)
  from Cons.prems(3) have "uncounted_failure out" by simp
  from attempt_uncounted [OF this, of s] obtain n where
    a: "attempt s out = Continue (s\<lparr>trace := trace s @ [Req (page s), Sleep n]\<rparr>)" by blast
  let ?s1 = "s\<lparr>trace := trace s @ [Req (page s), Sleep n]\<rparr>"
  have "\<not> limit_reached (max_pages cfg) (page ?s1)" using Cons.prems(1) by simp
  from Cons.IH [OF this Cons.prems(2)] Cons.prems(3)
  obtain s' where s': "loop cfg ?s1 ts = Pending s'"
    "page s' = page s" "consecutive_empty s' = consecutive_empty s"
    "comments_data s' = comments_data s" "total_count s' = total_count s"
    "total_count_from_api s' = total_count_from_api s"
    "requests s' = requests ?s1 @ replicate (length ts) (page s)"
    by auto
  have "loop cfg s (out # ts) = Pending s'"
    using Cons.prems(1,2) a s'(1) by simp
  then show ?case using s' by (simp add: replicate_append_same [symmetric] del: loop.simps)
qed

lemma process_result_not_success:
  assumes "result_data_of (Response 200 (JsonValue v)) = None"
  shows "\<exists>r. \<forall>s. process_result s v = Stop r s"
proof (cases "py_contains v (u ''result'')")
  case (Inl e)
  then show ?thesis by (simp add: process_result_def)
next
  case (Inr b)
  show ?thesis
  proof (cases b)
    case False
    with Inr show ?thesis by (simp add: process_result_def)
  next
    case True
    show ?thesis
    proof (cases v)
      case (JDict d)
      with Inr True obtain w where w: "map_of d (u ''result'') = Some w"
        by (auto simp: image_iff) (metis domIff dom_map_of_conv_image_fst image_eqI not_None_eq fst_conv)
      with assms JDict have "\<not> is_mapping w"
        by (cases w) (simp_all add: is_mapping_def)
      then show ?thesis
        using Inr True JDict w by (simp add: process_result_def get_not_mapping)
    qed (use Inr True in \<open>simp_all add: process_result_def\<close>)
  qed
qed

lemma outcome_cases:
  obtains (http) "http_failure out"
  | (exn) e where "raised out = Some e"
  | (ok) rd where "result_data_of out = Some rd"
  | (bad) r where "\<forall>s. attempt s out = Stop r (s\<lparr>trace := trace s @ [Req (page s)]\<rparr>)"
proof (cases "http_failure out")
  case True
  then show ?thesis by (rule http)
next
  case nf: False
  show ?thesis
  proof (cases "raised out")
    case (Some e)
    then show ?thesis by (rule exn)
  next
    case None
    show ?thesis
    proof (cases "result_data_of out")
      case (Some rd)
      then show ?thesis by (rule ok)
    next
      case nr: None
      from nf None obtain v where out: "out = Response 200 (JsonValue v)"
        by (cases out rule: raised.cases) (auto split: if_splits)
      from process_result_not_success [OF nr [unfolded out]] obtain r
        where "\<forall>s. process_result s v = Stop r s" by blast
      then have "\<forall>s. attempt s out = Stop r (s\<lparr>trace := trace s @ [Req (page s)]\<rparr>)"
        by (simp add: out attempt_def emit_def Let_def)
      then show ?thesis by (rule bad)
    qed
  qed
qed

lemma handle_exn_cases:
  "handle_exn s e = Continue (s\<lparr>trace := trace s @ [Sleep 5]\<rparr>)
   \<or> handle_exn s e = Continue (s\<lparr>trace := trace s @ [Sleep 10]\<rparr>)
   \<or> handle_exn s e = Continue (s\<lparr>consecutive_empty := consecutive_empty s + 1, trace := trace s @ [Sleep 5]\<rparr>)
   \<or> (\<exists>r. handle_exn s e = Stop r (s\<lparr>consecutive_empty := consecutive_empty s + 1\<rparr>))
   \<or> (\<exists>r. handle_exn s e = Stop r s)"
  by (simp add: handle_exn_def emit_def Let_def)

lemma attempt_trace: "\<exists>evs. trace (state_of (attempt s out)) = trace s @ Req (page s) # evs"
proof (cases out rule: outcome_cases)
  case http
  then show ?thesis by (simp add: attempt_http_failure state_of_def)
next
  case (exn e)
  show ?thesis
    using handle_exn_cases [of "emit (Req (page s)) s" e]
    by (auto simp: attempt_raised [OF exn] state_of_def emit_def)
next
  case (ok rd)
  show ?thesis
    by (simp add: attempt_success [OF ok] state_of_def Let_def split: sum.split)
next
  case (bad r)
  then show ?thesis by (simp add: state_of_def)
qed

lemma attempt_Stop_frame:
  assumes "attempt s out = Stop r s'"
  shows "comments_data s' = comments_data s \<and> total_count s' = total_count s \<and> page s' = page s"
proof (cases out rule: outcome_cases)
  case http
  with assms show ?thesis by (auto simp: attempt_http_failure split: if_splits)
next
  case (exn e)
  show ?thesis
    using handle_exn_cases [of "emit (Req (page s)) s" e] assms
    by (auto simp: attempt_raised [OF exn] emit_def)
next
  case (ok rd)
  with assms show ?thesis
    by (auto simp: attempt_success [OF ok] Let_def split: sum.splits if_splits)
next
  case (bad r)
  with assms show ?thesis by auto
qed

lemma loop_trace: "\<exists>evs. trace (final_state (loop cfg s outs)) = trace s @ evs"
proof (induction outs arbitrary: s)
  case Nil
  show ?case by simp
next
  case (Cons out outs)
  from attempt_trace [of s out] obtain evs where
    e: "trace (state_of (attempt s out)) = trace s @ Req (page s) # evs" by blast
  show ?case
  proof (cases "attempt s out")
    case (Continue s1)
    with e Cons.IH [of s1] show ?thesis by (auto simp: state_of_def)
  next
    case (Stop r s1)
    with e show ?thesis by (auto simp: state_of_def)
  qed
qed

lemma requests_append:
  "trace s' = trace s @ evs \<Longrightarrow> \<exists>ps. requests s' = requests s @ ps"
  by (simp add: requests_def)

lemma limit_zero: "limit_reached (Some 0) p = limit_reached None p"
  by (simp add: limit_reached_def)

lemma loop_max_pages_zero:
  "max_pages cfg = Some 0 \<Longrightarrow> loop cfg s outs = loop (cfg\<lparr>max_pages := None\<rparr>) s outs"
  by (induction outs arbitrary: s) (simp_all add: limit_reached_def split: step.split)

lemma plain_json_decode_error_stops:
  assumes "fetch_comments cfg pre = Pending s"
    and "plain_json_decode_error e"
  shows "fetch_comments cfg (pre @ Response 200 (JsonRaises e) # rest)
           = Done JsonError (s\<lparr>trace := trace s @ [Req (page s)]\<rparr>)"
  using fetch_next [OF assms(1), of "Response 200 (JsonRaises e)" rest]
  by (simp add: attempt_raised handle_plain_json [OF assms(2)] emit_def)




lemma dict_keys_set: "set (dict_keys c) = set (map fst c)"
  by (simp add: dict_keys_def)

lemma frame_columns_set:
  assumes "records \<noteq> []" and "\<forall>c \<in> set records. map fst c = inserted_columns"
  shows "set (frame_columns records) = set inserted_columns"
proof -
  from assms(1) obtain c where "c \<in> set records" by (cases records) auto
  with assms(2) show ?thesis
    by (auto simp: frame_columns_def dict_keys_set)
qed

lemma save_to_csv_all_columns:
  assumes "records \<noteq> []" and "\<forall>c \<in> set records. map fst c = inserted_columns"
  shows "save_to_csv records = Some columns_order"
  using assms(1)
  by (simp add: save_to_csv_def frame_columns_set [OF assms] inserted_columns_def columns_order_def)

lemma final_columns:
  "run_inv s \<Longrightarrow> \<forall>c \<in> set (comments_data (final_state (loop cfg s outs))). map fst c = inserted_columns"
proof (induction outs arbitrary: s)
  case Nil
  then show ?case by (simp add: run_inv_def)
next
  case (Cons out outs)
  show ?case
  proof (cases "attempt s out")
    case (Continue s1)
    with Cons.prems have "run_inv s1" by (auto dest: attempt_inv)
    from Cons.IH [OF this] Continue Cons.prems show ?thesis
      by (auto simp: run_inv_def)
  next
    case (Stop r s1)
    from attempt_Stop_frame [OF this] Stop Cons.prems show ?thesis
      by (auto simp: run_inv_def)
  qed
qed

lemma result_data_of_envelope:
  "result_data_of out = (if http_failure out then None else envelope_of out)"
  by (cases out rule: result_data_of.cases) simp_all

section \<open>The claims\<close>

text \<open>
  C1. What the loop does on a status other than 200 while the counter is under the
  ceiling: it counts the failure, sleeps 3 and goes on with the \<^emph>\<open>next\<close> page index. After
  a status 500 on page 1 the run waits for the response to a request for page 2; in the
  scenario "page 1 fails, then five items, then no items" the pages asked for are 1, 2
  and 3, so page 1 is never fetched again.
\<close>

theorem http_failure_skips_page:
  "fetch_comments example_cfg [Response 500 (JsonValue JNull)]
     = Pending \<lparr>page = 2, total_count = 0, consecutive_empty = 1, comments_data = [],
                total_count_from_api = JInt 0, trace = [Req 1, Sleep 3]\<rparr>
   \<and> requests (final_state (fetch_comments example_cfg
        [Response 500 (JsonValue JNull),
         page_body (JList [JDict [], JDict [], JDict [], JDict [], JDict []]) (JInt 5),
         page_body (JList []) (JInt 5)])) = [1, 2, 3]"
  by (rule conjI; code_simp)

text \<open>
  C2. The parser on items that are dicts with one anomalous field. A list of numbers
  under \<open>recommendItems\<close> makes the unguarded join raise, and a number under \<open>images\<close>
  makes the unguarded \<open>len\<close> raise: both leave through the outer handler and the whole
  record is dropped. A number under \<open>userInfo\<close>, whose extraction is guarded, only
  degrades the author and the identity badge to their defaults.
\<close>

theorem unguarded_field_failure_drops_record:
  "is_mapping (JDict [(u ''recommendItems'', JList [JInt 1])])
   \<and> parse_comment (JDict [(u ''recommendItems'', JList [JInt 1])]) = None
   \<and> is_mapping (JDict [(u ''images'', JInt 3)])
   \<and> parse_comment (JDict [(u ''images'', JInt 3)]) = None
   \<and> parse_comment (JDict [(u ''userInfo'', JInt 1)]) =
        Some [(col_user, JStr anonymous), (col_time, JStr []), (col_content, JStr []),
              (col_ip, JStr []), (col_score, JStr []), (col_tags, JStr []), (col_useful, JInt 0),
              (col_id, JStr []), (col_images, JInt 0), (col_reply, JInt 0), (col_identity, JStr [])]"
  by (intro conjI; code_simp)






text \<open>
  C5. A run waits for a response, and the next outcomes, however many, are all timeouts
  or connection errors. Then the run is still waiting for a response: the page index,
  the failure counter, the records, the count and the stored total are what they were, one
  request for the same page was issued per failure, and whatever follows is processed
  from that state.
\<close>

theorem uncounted_failures_retry:
  assumes "fetch_comments cfg pre = Pending s"
    and "\<forall>out \<in> set ts. uncounted_failure out"
  shows "\<exists>s'. fetch_comments cfg (pre @ ts) = Pending s'
           \<and> page s' = page s \<and> consecutive_empty s' = consecutive_empty s
           \<and> comments_data s' = comments_data s \<and> total_count s' = total_count s
           \<and> total_count_from_api s' = total_count_from_api s
           \<and> requests s' = requests s @ replicate (length ts) (page s)
           \<and> (\<forall>rest. fetch_comments cfg (pre @ ts @ rest) = loop cfg s' rest)"
proof -
  have r: "\<not> limit_reached (max_pages cfg) (page s)" "poi_id_int cfg \<noteq> None"
    using Pending_ready assms(1) unfolding fetch_comments_def by blast+
  from loop_uncounted [OF r assms(2)] obtain s' where s': "loop cfg s ts = Pending s'"
    "page s' = page s" "consecutive_empty s' = consecutive_empty s"
    "comments_data s' = comments_data s" "total_count s' = total_count s"
    "total_count_from_api s' = total_count_from_api s"
    "requests s' = requests s @ replicate (length ts) (page s)"
    by blast
  have a: "fetch_comments cfg (pre @ ts) = Pending s'"
    using assms(1) s'(1) by (simp add: fetch_comments_def loop_append)
  have b: "fetch_comments cfg (pre @ ts @ rest) = loop cfg s' rest" for rest
    using a loop_append [of cfg init_state "pre @ ts" rest] by (simp add: fetch_comments_def)
  show ?thesis using a b s' by blast
qed

theorem uncounted_failures_retry_witness:
  "\<exists>s'. fetch_comments example_cfg ([] @ replicate 6 (PostRaises {Timeout, RequestException})) = Pending s'
        \<and> page s' = 1 \<and> consecutive_empty s' = 0 \<and> requests s' = [1, 1, 1, 1, 1, 1]
        \<and> fetch_comments example_cfg
             ([] @ replicate 6 (PostRaises {Timeout, RequestException}) @ [page_body (JList [JDict []]) (JInt 1)])
           = loop example_cfg s' [page_body (JList [JDict []]) (JInt 1)]
        \<and> page (final_state (loop example_cfg s' [page_body (JList [JDict []]) (JInt 1)])) = 2"
proof -
  have h1: "fetch_comments example_cfg [] = Pending init_state" by code_simp
  have h2: "\<forall>out \<in> set (replicate 6 (PostRaises {Timeout, RequestException})). uncounted_failure out"
    by code_simp
  have l: "page init_state = 1" "consecutive_empty init_state = 0" "requests init_state = []"
    by code_simp+
  from uncounted_failures_retry [OF h1 h2] obtain s' where
    s': "fetch_comments example_cfg ([] @ replicate 6 (PostRaises {Timeout, RequestException})) = Pending s'"
    "page s' = page init_state" "consecutive_empty s' = consecutive_empty init_state"
    "requests s' = requests init_state @ replicate (length (replicate 6 (PostRaises {Timeout, RequestException}))) (page init_state)"
    "\<forall>rest. fetch_comments example_cfg ([] @ replicate 6 (PostRaises {Timeout, RequestException}) @ rest) = loop example_cfg s' rest"
    by blast
  have e: "s' = final_state (fetch_comments example_cfg ([] @ replicate 6 (PostRaises {Timeout, RequestException})))"
    using s'(1) by simp
  have p: "page (final_state (loop example_cfg s' [page_body (JList [JDict []]) (JInt 1)])) = 2"
    unfolding e by code_simp
  have rq: "replicate 6 (1::int) = [1, 1, 1, 1, 1, 1]" by code_simp
  show ?thesis
    using s' p by (intro exI [of _ s']) (simp add: l rq)
qed

text \<open>
  C6, as stated, fails. A first response with status 201 is structurally successful in
  the specification's sense and reports a total of 0, but the code takes every status
  other than 200 as a failure: the run does not end, it counts a failure and goes on to
  request page 2.
\<close>

theorem first_page_total_zero_counterexample:
  "spec_structural_success (page_response 201 (JList []) (JInt 0))
   \<and> envelope_of (page_response 201 (JList []) (JInt 0))
        = Some [(u ''items'', JList []), (u ''totalCount'', JInt 0)]
   \<and> total_of [(u ''items'', JList []), (u ''totalCount'', JInt 0)] = JInt 0
   \<and> fetch_comments example_cfg [page_response 201 (JList []) (JInt 0)]
        = Pending \<lparr>page = 2, total_count = 0, consecutive_empty = 1, comments_data = [],
                   total_count_from_api = JInt 0, trace = [Req 1, Sleep 3]\<rparr>
   \<and> requests (final_state (fetch_comments example_cfg
        [page_response 201 (JList []) (JInt 0), page_body (JList []) (JInt 0)])) = [1, 2]"
  by (intro conjI; code_simp)

text \<open>
  C6, amended. A run waits for a response while its page index is still 1. If the
  response has status 200, carries the result envelope and reports a total that compares
  equal to 0, the run ends at once on the no-reviews exit whatever would follow: it holds
  no records, returns 0, and the request for page 1 is the last one it issues.
\<close>

theorem first_page_total_zero:
  assumes "fetch_comments cfg pre = Pending s"
    and "page s = 1"
    and "result_data_of out = Some rd"
    and "py_eq_zero (total_of rd)"
  shows "\<exists>s'. fetch_comments cfg (pre @ out # rest) = Done NoReviews s'
           \<and> comments_data s' = []
           \<and> requests s' = requests s @ [1]
           \<and> return_value (fetch_comments cfg (pre @ out # rest)) = Some 0"
proof -
  have "run_inv s" using assms(1) by (rule fetch_inv)
  with assms(2) have "comments_data s = []" by (simp add: run_inv_def)
  moreover have "attempt s out =
      Stop NoReviews (s\<lparr>trace := trace s @ [Req (page s)], total_count_from_api := total_of rd\<rparr>)"
    using assms(2,3,4) by (simp add: attempt_success Let_def)
  ultimately show ?thesis
    using fetch_next [OF assms(1), of out rest] assms(2) by simp
qed

theorem first_page_total_zero_witness:
  "\<exists>s'. fetch_comments example_cfg
           ([] @ page_body (JList [JDict []]) (JInt 0) # [page_body (JList [JDict []]) (JInt 0)])
             = Done NoReviews s'
        \<and> comments_data s' = [] \<and> requests s' = [1]"
proof -
  have h1: "fetch_comments example_cfg [] = Pending init_state" by code_simp
  have h2: "page init_state = 1" by code_simp
  have h3: "result_data_of (page_body (JList [JDict []]) (JInt 0))
              = Some [(u ''items'', JList [JDict []]), (u ''totalCount'', JInt 0)]"
    by code_simp
  have h4: "py_eq_zero (total_of [(u ''items'', JList [JDict []]), (u ''totalCount'', JInt 0)])"
    by code_simp
  have l: "requests init_state = []" by code_simp
  from first_page_total_zero [OF h1 h2 h3 h4, of "[page_body (JList [JDict []]) (JInt 0)]"]
  show ?thesis by (auto simp: l)
qed

text \<open>
  C7, as stated, fails. With one record held, a response with status 201 that carries an
  empty items list is structurally successful in the specification's sense, but the code
  takes it as an HTTP failure: the run does not end, the page index goes from 2 to 3 and a
  further request is issued.
\<close>

theorem empty_page_completes_counterexample:
  "spec_structural_success (page_response 201 (JList []) (JInt 1))
   \<and> envelope_of (page_response 201 (JList []) (JInt 1))
        = Some [(u ''items'', JList []), (u ''totalCount'', JInt 1)]
   \<and> items_of [(u ''items'', JList []), (u ''totalCount'', JInt 1)] = JList []
   \<and> length (comments_data (final_state (fetch_comments example_cfg
        [page_body (JList [JDict []]) (JInt 1)]))) = 1
   \<and> return_value (fetch_comments example_cfg
        [page_body (JList [JDict []]) (JInt 1), page_response 201 (JList []) (JInt 1)]) = None
   \<and> page (final_state (fetch_comments example_cfg
        [page_body (JList [JDict []]) (JInt 1), page_response 201 (JList []) (JInt 1)])) = 3
   \<and> requests (final_state (fetch_comments example_cfg
        [page_body (JList [JDict []]) (JInt 1), page_response 201 (JList []) (JInt 1),
         page_body (JList [JDict []]) (JInt 1)])) = [1, 2, 3]"
  by (intro conjI; code_simp)

text \<open>
  C7, amended. A run has consumed the outcomes \<open>pre\<close>, holds at least one record and
  waits for the next response. If that response has status 200, carries the result
  envelope and its items are empty, the run ends on the normal-completion exit whatever
  would follow; the records and the count are the ones it held, the only further request
  is the one for the current page, and the count is returned.
\<close>

theorem empty_page_completes:
  assumes "fetch_comments cfg pre = Pending s"
    and "comments_data s \<noteq> []"
    and "result_data_of out = Some rd"
    and "\<not> truthy (items_of rd)"
  shows "\<exists>s'. fetch_comments cfg (pre @ out # rest) = Done Completed s'
           \<and> comments_data s' = comments_data s
           \<and> total_count s' = total_count s
           \<and> requests s' = requests s @ [page s]
           \<and> return_value (fetch_comments cfg (pre @ out # rest)) = Some (total_count s)"
proof -
  have "run_inv s" using assms(1) by (rule fetch_inv)
  with assms(2) have "page s \<noteq> 1" by (auto simp: run_inv_def)
  then have "attempt s out =
      Stop Completed (s\<lparr>trace := trace s @ [Req (page s)], total_count_from_api := total_of rd\<rparr>)"
    using assms(3,4) by (simp add: attempt_success Let_def)
  then show ?thesis
    using fetch_next [OF assms(1), of out rest] by simp
qed

theorem empty_page_completes_witness:
  "\<exists>s'. fetch_comments example_cfg
           ([page_body (JList [JDict []]) (JInt 1)] @ page_body (JList []) (JInt 1) # []) = Done Completed s'
        \<and> length (comments_data s') = 1 \<and> requests s' = [1, 2]"
proof -
  define s where "s = final_state (fetch_comments example_cfg [page_body (JList [JDict []]) (JInt 1)])"
  have h1: "fetch_comments example_cfg [page_body (JList [JDict []]) (JInt 1)] = Pending s"
    unfolding s_def by code_simp
  have h2: "comments_data s \<noteq> []" unfolding s_def by code_simp
  have h3: "result_data_of (page_body (JList []) (JInt 1)) = Some [(u ''items'', JList []), (u ''totalCount'', JInt 1)]"
    by code_simp
  have h4: "\<not> truthy (items_of [(u ''items'', JList []), (u ''totalCount'', JInt 1)])"
    by code_simp
  have l: "length (comments_data s) = 1" "requests s = [1]" "page s = 2"
    unfolding s_def by code_simp+
  from empty_page_completes [OF h1 h2 h3 h4, of "[]"] show ?thesis
    by (auto simp: l)
qed

text \<open>
  C8. A status 200 whose \<open>json()\<close> raises an exception that is an instance of both
  \<open>RequestException\<close> and \<open>JSONDecodeError\<close> (the decode error of the HTTP library derives
  from both) is taken by the \<open>RequestException\<close> handler, which comes first in the chain:
  the failure is counted, the run sleeps 5 and asks for the same page again.
  \<open>plain_json_decode_error_stops\<close> above is the other case: a decode error that is not a
  \<open>RequestException\<close> reaches its own handler and ends the run.
\<close>

theorem json_decode_failure_retried:
  "fetch_comments example_cfg [Response 200 (JsonRaises {RequestException, JSONDecodeError})]
     = Pending \<lparr>page = 1, total_count = 0, consecutive_empty = 1, comments_data = [],
                total_count_from_api = JInt 0, trace = [Req 1, Sleep 5]\<rparr>
   \<and> requests (final_state (fetch_comments example_cfg
        [Response 200 (JsonRaises {RequestException, JSONDecodeError}),
         page_body (JList []) (JInt 5)])) = [1, 1]"
  by (rule conjI; code_simp)

text \<open>
  C9. With \<open>max_pages = 0\<close> (and an identifier that \<open>int\<close> accepts) the run is the run
  with no page limit at all, on every list of outcomes. In particular it does not end
  before the first request: with no outcome available it is waiting for the response to
  the first request, and with an outcome available the first request it issues is the one
  for page 1.
\<close>

theorem max_pages_zero_is_unbounded:
  assumes "max_pages cfg = Some 0" and "poi_id_int cfg \<noteq> None"
  shows "fetch_comments cfg outs = fetch_comments (cfg\<lparr>max_pages := None\<rparr>) outs
         \<and> fetch_comments cfg [] = Pending init_state
         \<and> (\<exists>ps. requests (final_state (fetch_comments cfg (out # rest))) = 1 # ps)"
proof -
  have a: "fetch_comments cfg outs = fetch_comments (cfg\<lparr>max_pages := None\<rparr>) outs"
    using assms(1) by (simp add: fetch_comments_def loop_max_pages_zero)
  have nl: "\<not> limit_reached (max_pages cfg) (page init_state)"
    using assms(1) by (simp add: limit_reached_def)
  have b: "fetch_comments cfg [] = Pending init_state"
    using nl assms(2) by (simp add: fetch_comments_def)
  from attempt_trace [of init_state out] obtain evs where
    e: "trace (state_of (attempt init_state out)) = Req 1 # evs"
    by (auto simp: init_state_def)
  have "\<exists>evs'. trace (final_state (fetch_comments cfg (out # rest))) = Req 1 # evs'"
  proof (cases "attempt init_state out")
    case (Continue s1)
    with e loop_trace [of cfg s1 rest] nl assms(2) show ?thesis
      by (auto simp: fetch_comments_def state_of_def)
  next
    case (Stop r s1)
    with e nl assms(2) show ?thesis by (auto simp: fetch_comments_def state_of_def)
  qed
  then have c: "\<exists>ps. requests (final_state (fetch_comments cfg (out # rest))) = 1 # ps"
    by (auto simp: requests_def)
  from a b c show ?thesis by blast
qed

theorem max_pages_zero_is_unbounded_witness:
  "fetch_comments (example_cfg\<lparr>max_pages := Some 0\<rparr>) [] = Pending init_state
   \<and> (\<exists>ps. requests (final_state (fetch_comments (example_cfg\<lparr>max_pages := Some 0\<rparr>)
              (page_body (JList [JDict []]) (JInt 1) # [page_body (JList []) (JInt 1)]))) = 1 # ps)"
proof -
  have h1: "max_pages (example_cfg\<lparr>max_pages := Some 0\<rparr>) = Some 0" by code_simp
  have h2: "poi_id_int (example_cfg\<lparr>max_pages := Some 0\<rparr>) \<noteq> None" by code_simp
  from max_pages_zero_is_unbounded [OF h1 h2] show ?thesis by blast
qed

text \<open>
  C10. A record the parser emits has exactly the eleven keys of \<open>inserted_columns\<close>, in
  that order, whatever the item held. Hence whenever a run ends with at least one record,
  the header written by \<open>save_to_csv\<close> is the full \<open>columns_order\<close>: the same eleven
  columns.
\<close>

theorem eleven_columns_always:
  "(parse_comment item = Some c \<longrightarrow> map fst c = inserted_columns)
   \<and> length inserted_columns = 11 \<and> distinct inserted_columns
   \<and> (comments_data (final_state (fetch_comments cfg outs)) \<noteq> [] \<longrightarrow>
        save_to_csv (comments_data (final_state (fetch_comments cfg outs))) = Some columns_order)
   \<and> length columns_order = 11 \<and> set columns_order = set inserted_columns"
proof (intro conjI impI)
  show "map fst c = inserted_columns" if "parse_comment item = Some c"
    using that by (rule parse_comment_keys)
  show "length inserted_columns = 11" by (simp add: inserted_columns_def)
  show "distinct inserted_columns" by (rule inserted_columns_distinct)
  show "save_to_csv (comments_data (final_state (fetch_comments cfg outs))) = Some columns_order"
    if "comments_data (final_state (fetch_comments cfg outs)) \<noteq> []"
    using that final_columns [OF init_inv, of cfg outs]
    unfolding fetch_comments_def by (rule save_to_csv_all_columns)
  show "length columns_order = 11" by (simp add: columns_order_def)
  show "set columns_order = set inserted_columns"
    by (auto simp: columns_order_def inserted_columns_def)
qed

theorem eleven_columns_always_witness:
  "map fst (the (parse_comment (JDict []))) = inserted_columns
   \<and> save_to_csv (comments_data (final_state (fetch_comments example_cfg
        [page_body (JList [JDict [], JDict [(u ''score'', JInt 5)]]) (JInt 2)]))) = Some columns_order"
proof -
  have a: "parse_comment (JDict []) = Some (the (parse_comment (JDict [])))" by code_simp
  have b: "comments_data (final_state (fetch_comments example_cfg
        [page_body (JList [JDict [], JDict [(u ''score'', JInt 5)]]) (JInt 2)])) \<noteq> []"
    by code_simp
  from eleven_columns_always [of "JDict []" "the (parse_comment (JDict []))" example_cfg
        "[page_body (JList [JDict [], JDict [(u ''score'', JInt 5)]]) (JInt 2)]"] a b
  show ?thesis by blast
qed

end
